theory Spec2Isabelle
  imports Main "HOL-Library.Sublist"
begin

section \<open>Go strings and the library functions the command processor calls\<close>

text \<open>
  A Go string is a sequence of bytes, which is what \<^typ>\<open>string\<close> is here, and
  \<open>len\<close> is \<^const>\<open>length\<close>. The functions of package \<open>strings\<close> that
  \<open>cmdp.go\<close> calls are embedded as they act on ASCII text: the white space of
  \<open>strings.TrimSpace\<close> is the six bytes of the library's \<open>asciiSpace\<close> table, and
  \<open>strings.ToLower\<close> moves the bytes \<open>A\<close> to \<open>Z\<close> to \<open>a\<close> to \<open>z\<close>. A byte
  from 0x80 on is neither white space nor a letter with a case here; Go decodes such
  bytes as UTF-8 first, which is outside this embedding.
\<close>

definition asciiSpace :: "char \<Rightarrow> bool" where
  "asciiSpace c \<longleftrightarrow>
     c = CHR 0x09 \<or> c = CHR 0x0A \<or> c = CHR 0x0B \<or> c = CHR 0x0C \<or> c = CHR 0x0D \<or> c = CHR 0x20"

definition TrimSpace :: "string \<Rightarrow> string" where
  "TrimSpace s = rev (dropWhile asciiSpace (rev (dropWhile asciiSpace s)))"

definition toLowerByte :: "char \<Rightarrow> char" where
  "toLowerByte c =
     (let n = (of_char c :: nat) in if 65 \<le> n \<and> n \<le> 90 then char_of (n + 32) else c)"

definition ToLower :: "string \<Rightarrow> string" where
  "ToLower s = map toLowerByte s"

text \<open>
  \<open>strings.Index(s, sep)\<close> for a separator of one byte: the position of its first
  occurrence, \<open>None\<close> where Go returns \<open>-1\<close>.
\<close>

fun IndexByte :: "string \<Rightarrow> char \<Rightarrow> nat option" where
  "IndexByte [] sep = None"
| "IndexByte (c # s) sep =
     (if c = sep then Some 0 else map_option Suc (IndexByte s sep))"

text \<open>
  The loop of \<open>genSplit\<close> with \<open>sepSave = len(sep) = 1\<close>: \<open>k\<close> is the number of
  cuts still allowed (\<open>n - 1 - i\<close>); each cut keeps the separator at the end of the piece.
\<close>

fun genSplit :: "string \<Rightarrow> char \<Rightarrow> nat \<Rightarrow> string list" where
  "genSplit s sep 0 = [s]"
| "genSplit s sep (Suc k) =
     (case IndexByte s sep of
        None \<Rightarrow> [s]
      | Some m \<Rightarrow> take (m + 1) s # genSplit (drop (m + 1) s) sep k)"

text \<open>
  \<open>strings.SplitAfterN(s, sep, n)\<close> for a separator of one byte and \<open>n \<ge> 0\<close>:
  no piece for \<open>n = 0\<close>, at most \<open>n\<close> pieces otherwise.
\<close>

definition SplitAfterN :: "string \<Rightarrow> char \<Rightarrow> nat \<Rightarrow> string list" where
  "SplitAfterN s sep n = (if n = 0 then [] else genSplit s sep (n - 1))"

text \<open>\<open>strconv.Itoa\<close>: the decimal digits of an integer, with a sign when negative.\<close>

fun digits :: "nat \<Rightarrow> string" where
  "digits n =
     (if n < 10 then [char_of (48 + n)]
      else digits (n div 10) @ [char_of (48 + n mod 10)])"

declare digits.simps [simp del]

definition Itoa :: "int \<Rightarrow> string" where
  "Itoa i = (if i < 0 then CHR ''-'' # digits (nat (- i)) else digits (nat i))"

section \<open>Panics\<close>

datatype panic = IndexOutOfRange | NilDereference

section \<open>Normalising a command line\<close>

text \<open>
  \<open>cmdNormalize\<close> reads \<open>cmdls[0]\<close> without a test of the length, which panics on an
  empty slice: that branch is \<open>Inl IndexOutOfRange\<close>.
\<close>

definition cmdNormalize :: "string \<Rightarrow> panic + (string \<times> string)" where
  "cmdNormalize cmdln =
     (let cmdln' = TrimSpace cmdln;
          cmdls = SplitAfterN cmdln' (CHR '' '') 2
      in case cmdls of
           [] \<Rightarrow> Inl IndexOutOfRange
         | p0 # rest \<Rightarrow>
             (let cmdNm = ToLower (TrimSpace p0);
                  cmdArg = (case rest of [] \<Rightarrow> [] | p1 # _ \<Rightarrow> TrimSpace p1)
              in Inr (cmdNm, cmdArg)))"

section \<open>Command definitions\<close>

text \<open>
  A Go \<open>error\<close> is \<open>nil\<close> or carries a message: \<open>None\<close> or \<open>Some\<close> of the text
  that \<open>Error()\<close> returns. A \<open>[]string\<close> is \<open>nil\<close> or a slice: \<open>None\<close> or
  \<open>Some\<close> of its elements. The state \<open>'u\<close> is whatever the caller's closures are
  bound to; a \<open>Parser\<close> or \<open>Runner\<close> of the caller reads and updates it.
\<close>

type_synonym error = "string option"

type_synonym args = "string list option"

datatype 'u Parser =
    pn
  | userParser "string \<Rightarrow> 'u \<Rightarrow> (args \<times> error) \<times> 'u"

datatype 'u Runner =
    helpRunner
  | userRunner "args \<Rightarrow> 'u \<Rightarrow> error \<times> 'u"

text \<open>
  The interface fields \<open>Parse\<close> and \<open>Run\<close> may be \<open>nil\<close>: \<open>None\<close>. The
  \<open>cs\<close> field of a \<open>helpRunner\<close> is not a field of the constructor: \<open>validate\<close>
  patches it with the table being built, which contains the runner itself, and the
  loop is started on that table, so \<open>Run\<close> takes the reference as an argument.
\<close>

record 'u Cdef =
  NmShort :: string
  NmLong :: string
  ArgDesc :: string
  Help :: string
  Parse :: "'u Parser option"
  Run :: "'u Runner option"

record 'u cdef =
  Cdef :: "'u Cdef"
  nmShortL :: string
  nmLongL :: string

record 'u cmds =
  cmmds :: "'u cdef list"

text \<open>The zero values \<open>Cdef{}\<close> and \<open>cdef{}\<close>.\<close>

definition Cdef_zero :: "'u Cdef" where
  "Cdef_zero =
     \<lparr>NmShort = [], NmLong = [], ArgDesc = [], Help = [], Parse = None, Run = None\<rparr>"

definition cdef_zero :: "'u cdef" where
  "cdef_zero = \<lparr>Cdef = Cdef_zero, nmShortL = [], nmLongL = []\<rparr>"


definition ParseNone :: "'u Parser" where
  "ParseNone = pn"

section \<open>What the processor does to the outside\<close>

text \<open>
  The writes to standard output and to standard error, in order, the caller's state,
  a log of the calls made to a \<open>Parser\<close> or a \<open>Runner\<close> with the argument each call
  received, and the number of times the shutdown channel has been closed.
\<close>

datatype call = ParseCall string | RunCall args

record 'u world =
  user :: 'u
  stdout :: "string list"
  stderr :: "string list"
  calls :: "call list"
  shutdownClosed :: nat

section \<open>Validation\<close>

text \<open>
  \<open>fmt\<close> prints a \<open>nil\<close> operand of the verb \<open>%s\<close> as \<open>%!s(<nil>)\<close>.
\<close>

definition fmtS :: "error \<Rightarrow> string" where
  "fmtS e = (case e of None \<Rightarrow> ''%!s(<nil>)'' | Some m \<Rightarrow> m)"

definition errorsConcat :: "error \<Rightarrow> error \<Rightarrow> error" where
  "errorsConcat errs err = Some (fmtS errs @ fmtS err @ [CHR 0x0A])"

text \<open>The texts of the five violations; \<open>CHR 0x27\<close> is the apostrophe.\<close>

definition msgLong :: "string \<Rightarrow> string" where
  "msgLong cdefRef = ''Please specify long command name fo: '' @ cdefRef"

definition msgShort :: "string \<Rightarrow> string" where
  "msgShort cdefRef =
     ''Please specify a short name whose length doesn'' @ [CHR 0x27] @
     ''t exceed its corresponding long one for: '' @ cdefRef"

definition msgParse :: "string \<Rightarrow> string" where
  "msgParse cdefRef = ''Please specify a Parse function for command: '' @ cdefRef"

definition msgRun :: "string \<Rightarrow> string" where
  "msgRun cdefRef = ''Please specify a Run function for command: '' @ cdefRef"

definition msgHelp :: "string \<Rightarrow> string" where
  "msgHelp cdefRef = ''Please specify a Help text for command: '' @ cdefRef"

definition cdefVerify :: "'u Cdef \<Rightarrow> string \<Rightarrow> error" where
  "cdefVerify c altNm =
     (let cdefRef = (if NmLong c = [] then altNm else NmLong c);
          errs0 = None;
          errs1 =
            (if NmLong c = [] then errorsConcat errs0 (Some (msgLong cdefRef))
             else if length (NmShort c) > length (NmLong c) then
               errorsConcat errs0 (Some (msgShort cdefRef))
             else errs0);
          errs2 =
            (if Parse c = None then errorsConcat errs1 (Some (msgParse cdefRef)) else errs1);
          errs3 =
            (if Run c = None then errorsConcat errs2 (Some (msgRun cdefRef)) else errs2);
          errs4 =
            (if Help c = [] then errorsConcat errs3 (Some (msgHelp cdefRef)) else errs3)
      in errs4)"

text \<open>
  The loop of \<open>validate\<close> from index \<open>i\<close> on: \<open>tbl\<close> is \<open>cs.cmmds\<close>, allocated
  with one zero entry for each definition, and \<open>errs\<close> the errors so far. A rejected
  definition leaves its entry as it is.
\<close>

fun validateLoop ::
  "nat \<Rightarrow> 'u Cdef list \<Rightarrow> 'u cdef list \<Rightarrow> error \<Rightarrow> 'u cdef list \<times> error" where
  "validateLoop i [] tbl errs = (tbl, errs)"
| "validateLoop i (cPub # rest) tbl errs =
     (case cdefVerify cPub (Itoa (int i)) of
        Some err \<Rightarrow> validateLoop (Suc i) rest tbl (errorsConcat errs (Some err))
      | None \<Rightarrow>
          validateLoop (Suc i) rest
            (tbl[i := \<lparr>Cdef = cPub, nmShortL = ToLower (NmShort cPub),
                       nmLongL = ToLower (NmLong cPub)\<rparr>])
            errs)"

text \<open>\<open>validate\<close> returns a pointer, \<open>None\<close> for \<open>nil\<close>, and an error.\<close>

definition validate :: "'u Cdef list \<Rightarrow> 'u cmds option \<times> error" where
  "validate cds =
     (if length cds < 1 then (None, Some ''commands not defined'')
      else
        (case validateLoop 0 cds (replicate (length cds) cdef_zero) None of
           (tbl, errs) \<Rightarrow> (Some \<lparr>cmmds = tbl\<rparr>, errs)))"

section \<open>Parsers and runners\<close>

definition pn_Parse :: "string \<Rightarrow> args \<times> error" where
  "pn_Parse cmdln = (None, None)"

text \<open>
  A call through the interface \<open>Parser\<close>; the call is logged with the string it
  receives.
\<close>

definition Parser_Parse ::
  "'u Parser \<Rightarrow> string \<Rightarrow> 'u world \<Rightarrow> (args \<times> error) \<times> 'u world" where
  "Parser_Parse p cmdln w =
     (let w1 = w\<lparr>calls := calls w @ [ParseCall cmdln]\<rparr>
      in case p of
           pn \<Rightarrow> (pn_Parse cmdln, w1)
         | userParser f \<Rightarrow> (case f cmdln (user w1) of (r, u) \<Rightarrow> (r, w1\<lparr>user := u\<rparr>)))"

text \<open>
  \<open>helpRunner.Run\<close>: \<open>hr.cs\<close> is the argument \<open>cs\<close>; reading \<open>hr.cs.cmmds\<close>
  through a \<open>nil\<close> pointer panics.
\<close>

definition helpLines :: "'u cdef \<Rightarrow> string list" where
  "helpLines c =
     [NmShort (Cdef c) @ '','' @ NmLong (Cdef c) @ '' '' @ ArgDesc (Cdef c) @ [CHR 0x0A],
      ''    '' @ Help (Cdef c) @ [CHR 0x0A]]"

definition helpRunner_Run ::
  "'u cmds option \<Rightarrow> args \<Rightarrow> 'u world \<Rightarrow> panic + (error \<times> 'u world)" where
  "helpRunner_Run cs args w =
     (let w1 = w\<lparr>stdout := stdout w @ [''Help :'' @ [CHR 0x0A]]\<rparr>
      in case cs of
           None \<Rightarrow> Inl NilDereference
         | Some t \<Rightarrow> Inr (None, w1\<lparr>stdout := stdout w1 @ concat (map helpLines (cmmds t))\<rparr>))"

definition Runner_Run ::
  "'u Runner \<Rightarrow> 'u cmds option \<Rightarrow> args \<Rightarrow> 'u world \<Rightarrow> panic + (error \<times> 'u world)" where
  "Runner_Run r cs args w =
     (let w1 = w\<lparr>calls := calls w @ [RunCall args]\<rparr>
      in case r of
           helpRunner \<Rightarrow> helpRunner_Run cs args w1
         | userRunner f \<Rightarrow> (case f args (user w1) of (e, u) \<Rightarrow> Inr (e, w1\<lparr>user := u\<rparr>)))"

section \<open>Selecting and running a command\<close>

definition msgUnknown :: "string \<Rightarrow> string" where
  "msgUnknown cmdNm =
     ''Error: unknown command: '' @ [CHR 0x27] @ cmdNm @ [CHR 0x27] @ '' - try '' @
     [CHR 0x27] @ ''h'' @ [CHR 0x27] @ '' for help'' @ [CHR 0x0A]"

fun cmdSelect :: "'u cdef list \<Rightarrow> string \<Rightarrow> 'u cdef \<times> error" where
  "cmdSelect [] cmdNm = (cdef_zero, Some (msgUnknown cmdNm))"
| "cmdSelect (c # cmds) cmdNm =
     (if cmdNm = nmShortL c \<or> cmdNm = nmLongL c then (c, None) else cmdSelect cmds cmdNm)"

text \<open>\<open>fmt.Fprintf(os.Stderr, "%s\n", err)\<close>.\<close>

definition report :: "string \<Rightarrow> 'u world \<Rightarrow> 'u world" where
  "report msg w = w\<lparr>stderr := stderr w @ [msg @ [CHR 0x0A]]\<rparr>"

text \<open>
  \<open>cmdParseRun\<close>: a call of a method through a \<open>nil\<close> interface panics.
\<close>

definition cmdParseRun :: "'u cdef list \<Rightarrow> string \<Rightarrow> 'u world \<Rightarrow> panic + 'u world" where
  "cmdParseRun cmds cmdLn w =
     (case cmdNormalize cmdLn of
        Inl p \<Rightarrow> Inl p
      | Inr (cmdNm, cmdArg) \<Rightarrow>
          (case cmdSelect cmds cmdNm of
             (cmd, Some err) \<Rightarrow> Inr (report err w)
           | (cmd, None) \<Rightarrow>
               (case Parse (Cdef cmd) of
                  None \<Rightarrow> Inl NilDereference
                | Some p \<Rightarrow>
                    (case Parser_Parse p (cmdNm @ '' '' @ cmdArg) w of
                       ((args, Some err), w1) \<Rightarrow> Inr (report err w1)
                     | ((args, None), w1) \<Rightarrow>
                         (case Run (Cdef cmd) of
                            None \<Rightarrow> Inl NilDereference
                          | Some r \<Rightarrow>
                              (case Runner_Run r (Some \<lparr>cmmds = cmds\<rparr>) args w1 of
                                 Inl p \<Rightarrow> Inl p
                               | Inr (Some err, w2) \<Rightarrow> Inr (report err w2)
                               | Inr (None, w2) \<Rightarrow> Inr w2))))))"

section \<open>The dispatch loop\<close>

text \<open>
  One turn of the \<open>select\<close> of \<open>processCmdLn\<close> receives one of: a line from the
  response channel, the closure of the response channel, or a value from the shutdown
  channel. The loop is run on the sequence of what its turns receive; when the sequence
  ends the loop is waiting in \<open>select\<close>.
\<close>

datatype event = RespLine string | RespClosed | ShutdownRecv bool

datatype loopState = Running | Terminated

fun processLoop ::
  "'u cdef list \<Rightarrow> event list \<Rightarrow> 'u world \<Rightarrow> panic + (loopState \<times> event list \<times> 'u world)" where
  "processLoop cmds [] w = Inr (Running, [], w)"
| "processLoop cmds (RespLine cmdLn # evs) w =
     (case cmdParseRun cmds cmdLn w of
        Inl p \<Rightarrow> Inl p
      | Inr w1 \<Rightarrow> processLoop cmds evs w1)"
| "processLoop cmds (RespClosed # evs) w = Inr (Terminated, evs, w)"
| "processLoop cmds (ShutdownRecv sd # evs) w =
     (if sd then Inr (Terminated, evs, w) else processLoop cmds evs w)"

text \<open>
  \<open>processCmdLn\<close>: the deferred \<open>close(shutdown)\<close> runs when the loop returns. The
  events the loop did not consume are returned with the state.
\<close>

definition processCmdLn ::
  "'u cdef list \<Rightarrow> event list \<Rightarrow> 'u world \<Rightarrow> panic + (loopState \<times> event list \<times> 'u world)" where
  "processCmdLn cmds evs w =
     (case processLoop cmds evs w of
        Inl p \<Rightarrow> Inl p
      | Inr (Running, rest, w1) \<Rightarrow> Inr (Running, rest, w1)
      | Inr (Terminated, rest, w1) \<Rightarrow>
          Inr (Terminated, rest, w1\<lparr>shutdownClosed := shutdownClosed w1 + 1\<rparr>))"

section \<open>Starting the processor\<close>

text \<open>
  \<open>start\<close> returns the shutdown channel, \<open>None\<close> for \<open>nil\<close>, and an error. The
  third component is the task it launches with \<open>go\<close>: the table handed to
  \<open>processCmdLn\<close>, \<open>None\<close> when no task is launched. Reading \<open>cs.cmmds\<close> through
  a \<open>nil\<close> pointer panics.
\<close>

datatype chan = Chan

definition start ::
  "'u Cdef list \<Rightarrow> panic + (chan option \<times> error \<times> 'u cdef list option)" where
  "start cds =
     (case validate cds of
        (cs, Some err) \<Rightarrow> Inr (None, Some err, None)
      | (None, None) \<Rightarrow> Inl NilDereference
      | (Some cs, None) \<Rightarrow> Inr (Some Chan, None, Some (cmmds cs)))"

definition Start ::
  "'u Cdef list \<Rightarrow> panic + (chan option \<times> error \<times> 'u cdef list option)" where
  "Start cds = start cds"

section \<open>Notions the properties are stated with\<close>


text \<open>
  The five violations of the specification, each checked on its own, with the name
  the message refers to.
\<close>

definition violationsSpec :: "'u Cdef \<Rightarrow> string \<Rightarrow> string list" where
  "violationsSpec c altNm =
     (let cdefRef = (if NmLong c = [] then altNm else NmLong c)
      in (if NmLong c = [] then [msgLong cdefRef] else []) @
         (if length (NmShort c) > length (NmLong c) then [msgShort cdefRef] else []) @
         (if Parse c = None then [msgParse cdefRef] else []) @
         (if Run c = None then [msgRun cdefRef] else []) @
         (if Help c = [] then [msgHelp cdefRef] else []))"

text \<open>
  The violations \<open>cdefVerify\<close> looks for, in its order: the length of the short name
  is compared only when the long name is there.
\<close>

definition violations :: "'u Cdef \<Rightarrow> string \<Rightarrow> string list" where
  "violations c altNm =
     (let cdefRef = (if NmLong c = [] then altNm else NmLong c)
      in (if NmLong c = [] then [msgLong cdefRef]
          else if length (NmShort c) > length (NmLong c) then [msgShort cdefRef] else []) @
         (if Parse c = None then [msgParse cdefRef] else []) @
         (if Run c = None then [msgRun cdefRef] else []) @
         (if Help c = [] then [msgHelp cdefRef] else []))"

text \<open>The invariant of a command definition in the data model.\<close>

definition wellFormed :: "'u Cdef \<Rightarrow> bool" where
  "wellFormed c \<longleftrightarrow>
     NmLong c \<noteq> [] \<and> Help c \<noteq> [] \<and> Parse c \<noteq> None \<and> Run c \<noteq> None \<and>
     length (NmShort c) \<le> length (NmLong c)"

text \<open>The entry \<open>validate\<close> stores for a definition it accepts.\<close>

definition entryOf :: "'u Cdef \<Rightarrow> 'u cdef" where
  "entryOf cPub =
     \<lparr>Cdef = cPub, nmShortL = ToLower (NmShort cPub), nmLongL = ToLower (NmLong cPub)\<rparr>"



section \<open>The tables of the tests\<close>

text \<open>
  The state of the caller in the tests is the channel \<open>quit\<close> of \<open>runAway\<close>:
  \<open>True\<close> once it is closed. A second \<open>close\<close> would panic, which the tests do not
  reach and the runner here leaves out.
\<close>

definition runNone :: "bool Runner" where
  "runNone = userRunner (\<lambda>args u. (None, u))"



definition testCmds :: "bool Cdef list" where
  "testCmds =
     [\<lparr>NmShort = ''t'', NmLong = ''test'', ArgDesc = [], Help = ''Just a test function!'',
       Parse = Some ParseNone, Run = Some runNone\<rparr>]"




text \<open>Definitions that validation rejects.\<close>

definition noLongName :: "bool Cdef" where
  "noLongName =
     \<lparr>NmShort = ''x'', NmLong = [], ArgDesc = [], Help = ''No long name'',
      Parse = Some ParseNone, Run = Some runNone\<rparr>"

definition longShortName :: "bool Cdef" where
  "longShortName =
     \<lparr>NmShort = ''xyz'', NmLong = ''ab'', ArgDesc = [], Help = [], Parse = None, Run = None\<rparr>"

definition world0 :: "bool world" where
  "world0 = \<lparr>user = False, stdout = [], stderr = [], calls = [], shutdownClosed = 0\<rparr>"

section \<open>Facts about the library functions\<close>







lemma TrimSpace_Nil: "TrimSpace [] = []"
  by (simp add: TrimSpace_def)

lemma TrimSpace_Cons_space: "asciiSpace c \<Longrightarrow> TrimSpace (c # s) = TrimSpace s"
  by (simp add: TrimSpace_def)

lemma TrimSpace_snoc_space: "asciiSpace c \<Longrightarrow> TrimSpace (s @ [c]) = TrimSpace s"
proof (cases "\<forall>x\<in>set s. asciiSpace x")
  case True
  assume c: "asciiSpace c"
  from True have a: "dropWhile asciiSpace s = []" by simp
  from True c have b: "dropWhile asciiSpace (s @ [c]) = []" by simp
  show ?thesis unfolding TrimSpace_def a b by simp
next
  case False
  assume c: "asciiSpace c"
  from False obtain x where "x \<in> set s" "\<not> asciiSpace x" by blast
  then have "dropWhile asciiSpace (s @ [c]) = dropWhile asciiSpace s @ [c]"
    by (rule dropWhile_append1)
  with c show ?thesis by (simp add: TrimSpace_def)
qed





lemma IndexByte_None: "IndexByte s sep = None \<longleftrightarrow> sep \<notin> set s"
  by (induction s) auto

lemma IndexByte_Some:
  "sep \<in> set s \<Longrightarrow> IndexByte s sep = Some (length (takeWhile (\<lambda>c. c \<noteq> sep) s))"
  by (induction s) auto

lemma take_Suc_takeWhile:
  "sep \<in> set s \<Longrightarrow>
   take (Suc (length (takeWhile (\<lambda>c. c \<noteq> sep) s))) s = takeWhile (\<lambda>c. c \<noteq> sep) s @ [sep]"
  by (induction s) auto

lemma drop_Suc_takeWhile:
  "sep \<in> set s \<Longrightarrow>
   drop (Suc (length (takeWhile (\<lambda>c. c \<noteq> sep) s))) s = tl (dropWhile (\<lambda>c. c \<noteq> sep) s)"
  by (induction s) auto

lemma SplitAfterN_2:
  "SplitAfterN s sep 2 =
     (if sep \<in> set s
      then [takeWhile (\<lambda>c. c \<noteq> sep) s @ [sep], tl (dropWhile (\<lambda>c. c \<noteq> sep) s)]
      else [s])"
proof -
  have two: "(2::nat) - 1 = Suc 0" by simp
  show ?thesis
  proof (cases "sep \<in> set s")
    case True
    then show ?thesis
      unfolding SplitAfterN_def two
      by (simp add: IndexByte_Some take_Suc_takeWhile drop_Suc_takeWhile)
  next
    case False
    then have "IndexByte s sep = None" by (simp add: IndexByte_None)
    with False show ?thesis
      unfolding SplitAfterN_def two by simp
  qed
qed

lemma dropWhile_sep_hd:
  "sep \<in> set s \<Longrightarrow>
   dropWhile (\<lambda>c. c \<noteq> sep) s = sep # tl (dropWhile (\<lambda>c. c \<noteq> sep) s)"
  by (induction s) auto

section \<open>Normalisation\<close>

lemma cmdNormalize_eq:
  "cmdNormalize cmdln =
     Inr (ToLower (TrimSpace (takeWhile (\<lambda>c. c \<noteq> CHR '' '') (TrimSpace cmdln))),
          TrimSpace (dropWhile (\<lambda>c. c \<noteq> CHR '' '') (TrimSpace cmdln)))"
proof (cases "CHR '' '' \<in> set (TrimSpace cmdln)")
  case True
  have sp: "asciiSpace (CHR '' '')" by (simp add: asciiSpace_def)
  from True have "TrimSpace (dropWhile (\<lambda>c. c \<noteq> CHR '' '') (TrimSpace cmdln)) =
      TrimSpace (tl (dropWhile (\<lambda>c. c \<noteq> CHR '' '') (TrimSpace cmdln)))"
    using dropWhile_sep_hd [OF True] TrimSpace_Cons_space [OF sp] by metis
  with True show ?thesis
    by (simp add: cmdNormalize_def Let_def SplitAfterN_2 TrimSpace_snoc_space [OF sp])
next
  case False
  then have tw: "takeWhile (\<lambda>c. c \<noteq> CHR '' '') (TrimSpace cmdln) = TrimSpace cmdln"
    and dw: "dropWhile (\<lambda>c. c \<noteq> CHR '' '') (TrimSpace cmdln) = []"
    by auto
  show ?thesis
    unfolding tw dw using False
    by (simp add: cmdNormalize_def Let_def SplitAfterN_2 TrimSpace_Nil)
qed

section \<open>Validation accumulates the errors\<close>

lemma sublist_trans: "sublist xs ys \<Longrightarrow> sublist ys zs \<Longrightarrow> sublist xs zs"
  unfolding sublist_def by (metis append.assoc)

lemma errorsConcat_Some: "errorsConcat errs err \<noteq> None"
  by (simp add: errorsConcat_def)

lemma errorsConcat_sub_new:
  "\<exists>msg. errorsConcat errs (Some m) = Some msg \<and> sublist m msg"
  by (simp add: errorsConcat_def fmtS_def)

lemma errorsConcat_sub_old:
  "errs = Some e \<Longrightarrow> sublist m e \<Longrightarrow> \<exists>msg. errorsConcat errs err = Some msg \<and> sublist m msg"
  by (auto simp: errorsConcat_def fmtS_def intro: sublist_trans [OF _ sublist_append_rightI])

lemma cdefVerify_fold:
  "cdefVerify c altNm = foldl (\<lambda>errs m. errorsConcat errs (Some m)) None (violations c altNm)"
  by (simp add: cdefVerify_def violations_def Let_def)

lemma fold_errs_sub_acc:
  "errs = Some e \<Longrightarrow> sublist m e \<Longrightarrow>
   \<exists>msg. foldl (\<lambda>errs m. errorsConcat errs (Some m)) errs ms = Some msg \<and> sublist m msg"
proof (induction ms arbitrary: errs e)
  case Nil
  then show ?case by simp
next
  case (Cons a ms)
  from errorsConcat_sub_old [OF Cons.prems]
  obtain msg where "errorsConcat errs (Some a) = Some msg" "sublist m msg" by blast
  then show ?case using Cons.IH by simp
qed

lemma fold_errs_sub:
  "m \<in> set ms \<Longrightarrow>
   \<exists>msg. foldl (\<lambda>errs m. errorsConcat errs (Some m)) errs ms = Some msg \<and> sublist m msg"
proof (induction ms arbitrary: errs)
  case Nil
  then show ?case by simp
next
  case (Cons a ms)
  show ?case
  proof (cases "m = a")
    case True
    obtain msg where "errorsConcat errs (Some a) = Some msg" "sublist m msg"
      using errorsConcat_sub_new [of errs a] True by blast
    then show ?thesis using fold_errs_sub_acc by simp
  next
    case False
    with Cons show ?thesis by simp
  qed
qed

lemma cdefVerify_reports:
  "m \<in> set (violations c altNm) \<Longrightarrow> \<exists>msg. cdefVerify c altNm = Some msg \<and> sublist m msg"
  unfolding cdefVerify_fold by (rule fold_errs_sub)

lemma cdefVerify_None: "cdefVerify c altNm = None \<longleftrightarrow> wellFormed c"
  by (auto simp: cdefVerify_def wellFormed_def Let_def errorsConcat_def)

lemma validateLoop_keeps:
  "errs = Some e \<Longrightarrow> sublist m e \<Longrightarrow>
   \<exists>msg. snd (validateLoop i cds tbl errs) = Some msg \<and> sublist m msg"
proof (induction cds arbitrary: i tbl errs e)
  case Nil
  then show ?case by simp
next
  case (Cons c cds)
  show ?case
  proof (cases "cdefVerify c (Itoa (int i))")
    case None
    then show ?thesis using Cons by simp
  next
    case (Some err)
    from errorsConcat_sub_old [OF Cons.prems]
    obtain msg where "errorsConcat errs (Some err) = Some msg" "sublist m msg" by blast
    then show ?thesis using Some Cons.IH by simp
  qed
qed

lemma validateLoop_reports:
  "k < length cds \<Longrightarrow> cdefVerify (cds ! k) (Itoa (int (i + k))) = Some err \<Longrightarrow> sublist m err \<Longrightarrow>
   \<exists>msg. snd (validateLoop i cds tbl errs) = Some msg \<and> sublist m msg"
proof (induction cds arbitrary: i k tbl errs)
  case Nil
  then show ?case by simp
next
  case (Cons c cds)
  show ?case
  proof (cases k)
    case 0
    with Cons.prems have v: "cdefVerify c (Itoa (int i)) = Some err" by simp
    obtain msg where "errorsConcat errs (Some err) = Some msg" "sublist err msg"
      using errorsConcat_sub_new by blast
    with Cons.prems(3) have "errorsConcat errs (Some err) = Some msg" "sublist m msg"
      by (auto intro: sublist_trans)
    then show ?thesis using v validateLoop_keeps by simp
  next
    case (Suc k')
    with Cons.prems have "k' < length cds"
      "cdefVerify (cds ! k') (Itoa (int (Suc i + k'))) = Some err" by simp_all
    from Cons.IH [OF this Cons.prems(3)] show ?thesis
      by (cases "cdefVerify c (Itoa (int i))") simp_all
  qed
qed

lemma validateLoop_None:
  "snd (validateLoop i cds tbl errs) = None \<longleftrightarrow>
     errs = None \<and> (\<forall>k<length cds. wellFormed (cds ! k))"
proof (induction cds arbitrary: i tbl errs)
  case Nil
  then show ?case by simp
next
  case (Cons c cds)
  show ?case
  proof (cases "cdefVerify c (Itoa (int i))")
    case None
    then have "wellFormed c" by (simp add: cdefVerify_None)
    with None Cons show ?thesis by (auto simp: less_Suc_eq_0_disj)
  next
    case (Some err)
    then have "\<not> wellFormed c" using cdefVerify_None [of c "Itoa (int i)"] by simp
    with Some Cons show ?thesis by (auto simp: errorsConcat_Some)
  qed
qed

lemma validateLoop_length: "length (fst (validateLoop i cds tbl errs)) = length tbl"
  by (induction cds arbitrary: i tbl errs) (simp_all split: option.splits)

lemma validateLoop_nth:
  "j < length tbl \<Longrightarrow>
   fst (validateLoop i cds tbl errs) ! j =
     (if i \<le> j \<and> j < i + length cds \<and> wellFormed (cds ! (j - i)) then entryOf (cds ! (j - i))
      else tbl ! j)"
proof (induction cds arbitrary: i tbl errs)
  case Nil
  then show ?case by auto
next
  case (Cons c cds)
  show ?case
  proof (cases "cdefVerify c (Itoa (int i))")
    case None
    then have wf: "wellFormed c" by (simp add: cdefVerify_None)
    let ?tbl = "tbl[i := entryOf c]"
    have "fst (validateLoop i (c # cds) tbl errs) ! j = fst (validateLoop (Suc i) cds ?tbl errs) ! j"
      using None by (simp add: entryOf_def)
    also have "\<dots> = (if Suc i \<le> j \<and> j < Suc i + length cds \<and> wellFormed (cds ! (j - Suc i))
        then entryOf (cds ! (j - Suc i)) else ?tbl ! j)"
      using Cons.prems by (intro Cons.IH) simp
    finally show ?thesis using wf Cons.prems
      by (cases "j = i") (auto simp: nth_Cons' Suc_le_eq)
  next
    case (Some err)
    then have wf: "\<not> wellFormed c" using cdefVerify_None [of c "Itoa (int i)"] by simp
    have "fst (validateLoop i (c # cds) tbl errs) ! j =
        fst (validateLoop (Suc i) cds tbl (errorsConcat errs (Some err))) ! j"
      using Some by simp
    also have "\<dots> = (if Suc i \<le> j \<and> j < Suc i + length cds \<and> wellFormed (cds ! (j - Suc i))
        then entryOf (cds ! (j - Suc i)) else tbl ! j)"
      using Cons.prems by (intro Cons.IH)
    finally show ?thesis using wf Cons.prems
      by (cases "j = i") (auto simp: nth_Cons' Suc_le_eq)
  qed
qed

lemma validate_table:
  assumes "cds \<noteq> []"
  shows "\<exists>tbl. fst (validate cds) = Some \<lparr>cmmds = tbl\<rparr> \<and> length tbl = length cds \<and>
     (\<forall>j<length cds. tbl ! j = (if wellFormed (cds ! j) then entryOf (cds ! j) else cdef_zero))"
proof -
  let ?r = "validateLoop 0 cds (replicate (length cds) cdef_zero) None"
  have "fst (validate cds) = Some \<lparr>cmmds = fst ?r\<rparr>"
    using assms by (cases cds) (simp_all add: validate_def split: prod.splits)
  moreover have "length (fst ?r) = length cds" by (simp add: validateLoop_length)
  moreover have "fst ?r ! j = (if wellFormed (cds ! j) then entryOf (cds ! j) else cdef_zero)"
    if "j < length cds" for j
    using that by (simp add: validateLoop_nth)
  ultimately show ?thesis by blast
qed

lemma validate_errs:
  "cds \<noteq> [] \<Longrightarrow> snd (validate cds) = snd (validateLoop 0 cds (replicate (length cds) cdef_zero) None)"
  by (cases cds) (simp_all add: validate_def split: prod.splits)

lemma validate_ok:
  assumes "validate cds = (cs, None)"
  shows "cds \<noteq> []" and "list_all wellFormed cds" and "cs = Some \<lparr>cmmds = map entryOf cds\<rparr>"
proof -
  show ne: "cds \<noteq> []" using assms by (auto simp: validate_def)
  from assms have "snd (validate cds) = None" by simp
  with ne have wf: "\<forall>k<length cds. wellFormed (cds ! k)"
    by (simp add: validate_errs validateLoop_None)
  then show "list_all wellFormed cds" by (simp add: list_all_length)
  from validate_table [OF ne] obtain tbl where t: "fst (validate cds) = Some \<lparr>cmmds = tbl\<rparr>"
    "length tbl = length cds"
    "\<forall>j<length cds. tbl ! j = (if wellFormed (cds ! j) then entryOf (cds ! j) else cdef_zero)"
    by blast
  with wf have "tbl = map entryOf cds" by (intro nth_equalityI) simp_all
  with t assms show "cs = Some \<lparr>cmmds = map entryOf cds\<rparr>" by simp
qed

lemma validate_wellFormed:
  assumes "cds \<noteq> []" "list_all wellFormed cds"
  shows "validate cds = (Some \<lparr>cmmds = map entryOf cds\<rparr>, None)"
proof -
  from assms have "snd (validate cds) = None"
    by (simp add: validate_errs validateLoop_None list_all_length)
  then obtain cs where v: "validate cds = (cs, None)" by (cases "validate cds") simp
  from validate_ok(3) [OF this] v show ?thesis by simp
qed

text \<open>
  C2, as stated, fails: \<open>noLongName\<close> has no long name and a short name longer than
  its long name, and the combined error of validation holds the message of the missing
  long name only, nothing about the short name.
\<close>

theorem validate_short_name_counterexample:
  "NmLong noLongName = [] \<and> length (NmShort noLongName) > length (NmLong noLongName) \<and>
   violationsSpec noLongName ''0'' = [msgLong ''0'', msgShort ''0''] \<and>
   snd (validate [noLongName]) =
     Some (''%!s(<nil>)%!s(<nil>)Please specify long command name fo: 0'' @ [CHR 0x0A, CHR 0x0A]) \<and>
   \<not> sublist ''short name''
     (''%!s(<nil>)%!s(<nil>)Please specify long command name fo: 0'' @ [CHR 0x0A, CHR 0x0A])"
proof -
  have i: "Itoa 0 = ''0''" by code_simp
  have "cdefVerify noLongName ''0'' =
      Some (''%!s(<nil>)Please specify long command name fo: 0'' @ [CHR 0x0A])"
    by (simp add: cdefVerify_def noLongName_def ParseNone_def runNone_def Let_def
        errorsConcat_def fmtS_def msgLong_def)
  then have "snd (validate [noLongName]) =
     Some (''%!s(<nil>)%!s(<nil>)Please specify long command name fo: 0'' @ [CHR 0x0A, CHR 0x0A])"
    by (simp add: validate_def i errorsConcat_def fmtS_def)
  moreover have "violationsSpec noLongName ''0'' = [msgLong ''0'', msgShort ''0'']"
    by (simp add: violationsSpec_def noLongName_def ParseNone_def runNone_def Let_def)
  moreover have "\<not> sublist ''short name''
     (''%!s(<nil>)%!s(<nil>)Please specify long command name fo: 0'' @ [CHR 0x0A, CHR 0x0A])"
    by code_simp
  ultimately show ?thesis by (simp add: noLongName_def)
qed

lemma violations_long_name:
  "NmLong c \<noteq> [] \<Longrightarrow> violations c altNm = violationsSpec c altNm"
  by (simp add: violations_def violationsSpec_def)

text \<open>
  C2, amended: validation checks each definition for a missing long name (the message
  names the index of the element), for a short name longer than the long name when the
  long name is there, for a null parser, a null runner and an empty help text; the
  message of every such violation of every element is part of the one combined error,
  whatever the other elements are. With a long name the violations are the five of the
  specification; without, the length of the short name is not looked at.
\<close>

theorem validate_reports_every_violation:
  "(k < length cds \<and> m \<in> set (violations (cds ! k) (Itoa (int k))) \<longrightarrow>
      (\<exists>msg. snd (validate cds) = Some msg \<and> sublist m msg)) \<and>
   (NmLong c \<noteq> [] \<longrightarrow> violations c altNm = violationsSpec c altNm) \<and>
   (NmLong c = [] \<longrightarrow>
      violations c altNm =
        msgLong altNm #
        (if Parse c = None then [msgParse altNm] else []) @
        (if Run c = None then [msgRun altNm] else []) @
        (if Help c = [] then [msgHelp altNm] else []))"
proof (intro conjI impI)
  assume a: "k < length cds \<and> m \<in> set (violations (cds ! k) (Itoa (int k)))"
  then have ne: "cds \<noteq> []" by auto
  from a obtain err where e: "cdefVerify (cds ! k) (Itoa (int (0 + k))) = Some err" "sublist m err"
    using cdefVerify_reports by fastforce
  from a have "k < length cds" by simp
  from validateLoop_reports [OF this e]
  show "\<exists>msg. snd (validate cds) = Some msg \<and> sublist m msg"
    by (simp add: validate_errs [OF ne])
next
  assume "NmLong c \<noteq> []"
  then show "violations c altNm = violationsSpec c altNm" by (rule violations_long_name)
next
  assume "NmLong c = []"
  then show "violations c altNm =
        msgLong altNm #
        (if Parse c = None then [msgParse altNm] else []) @
        (if Run c = None then [msgRun altNm] else []) @
        (if Help c = [] then [msgHelp altNm] else [])"
    by (simp add: violations_def)
qed

text \<open>
  Witness for C2: the second of two rejected definitions has its short-name violation
  in the combined error.
\<close>

theorem validate_reports_every_violation_witness:
  "1 < length [noLongName, longShortName] \<and>
   msgShort ''ab'' \<in> set (violations ([noLongName, longShortName] ! 1) (Itoa (int 1))) \<and>
   (\<exists>msg. snd (validate [noLongName, longShortName]) = Some msg \<and> sublist (msgShort ''ab'') msg) \<and>
   violations longShortName ''1'' = violationsSpec longShortName ''1'' \<and>
   violations noLongName ''0'' = [msgLong ''0'']"
proof -
  have v: "violations longShortName altNm =
      [msgShort ''ab'', msgParse ''ab'', msgRun ''ab'', msgHelp ''ab'']" for altNm
    by (simp add: violations_def longShortName_def Let_def)
  have n: "NmLong noLongName = []" "NmLong longShortName \<noteq> []"
    "Parse noLongName \<noteq> None" "Run noLongName \<noteq> None" "Help noLongName \<noteq> []"
    by (simp_all add: noLongName_def longShortName_def)
  have k: "1 < length [noLongName, longShortName]" by simp
  have a: "msgShort ''ab'' \<in> set (violations ([noLongName, longShortName] ! 1) (Itoa (int 1)))"
    by (simp add: v)
  have r: "\<exists>msg. snd (validate [noLongName, longShortName]) = Some msg \<and> sublist (msgShort ''ab'') msg"
    using validate_reports_every_violation [of 1 "[noLongName, longShortName]" "msgShort ''ab''"] k a
    by blast
  have b: "violations longShortName ''1'' = violationsSpec longShortName ''1''"
    using validate_reports_every_violation [of 1 "[noLongName]" "[]" longShortName "''1''"] n
    by blast
  have c: "violations noLongName ''0'' = [msgLong ''0'']"
    using validate_reports_every_violation [of 1 "[noLongName]" "[]" noLongName "''0''"] n
    by simp
  from k a r b c show ?thesis by blast
qed

text \<open>
  C3, as stated, fails: on a rejected definition \<open>validate\<close> returns an error
  and, with it, the table it allocated, not \<open>nil\<close>.
\<close>

theorem validate_partial_table_counterexample:
  "snd (validate [noLongName]) \<noteq> None \<and> fst (validate [noLongName]) = Some \<lparr>cmmds = [cdef_zero]\<rparr>"
proof -
  have "cdefVerify noLongName (Itoa (int 0)) \<noteq> None"
    by (simp add: cdefVerify_None wellFormed_def noLongName_def)
  then obtain err where "cdefVerify noLongName (Itoa (int 0)) = Some err" by blast
  then show ?thesis
    by (simp add: validate_def errorsConcat_def)
qed

text \<open>
  C3, amended: when validation returns an error, the table is \<open>nil\<close> only for the
  empty sequence; for a non-empty sequence \<open>validate\<close> returns the table under
  construction with the error, the entries of the accepted definitions filled in and
  those of the rejected ones left zero, and at least one definition is rejected. It is
  \<open>start\<close> that drops the table: it returns a \<open>nil\<close> channel with the error and
  launches no loop.
\<close>

theorem validate_error_result:
  "snd (validate cds) \<noteq> None \<Longrightarrow>
     (cds = [] \<longrightarrow> validate cds = (None, Some ''commands not defined'')) \<and>
     (cds \<noteq> [] \<longrightarrow>
        (\<exists>tbl. fst (validate cds) = Some \<lparr>cmmds = tbl\<rparr> \<and> length tbl = length cds \<and>
           (\<forall>j<length cds.
              tbl ! j = (if wellFormed (cds ! j) then entryOf (cds ! j) else cdef_zero))) \<and>
        \<not> list_all wellFormed cds) \<and>
     start cds = Inr (None, snd (validate cds), None)"
proof (intro conjI impI)
  assume "cds = []"
  then show "validate cds = (None, Some ''commands not defined'')" by (simp add: validate_def)
next
  assume "cds \<noteq> []"
  then show "\<exists>tbl. fst (validate cds) = Some \<lparr>cmmds = tbl\<rparr> \<and> length tbl = length cds \<and>
           (\<forall>j<length cds.
              tbl ! j = (if wellFormed (cds ! j) then entryOf (cds ! j) else cdef_zero))"
    by (rule validate_table)
next
  assume e: "snd (validate cds) \<noteq> None" and ne: "cds \<noteq> []"
  show "\<not> list_all wellFormed cds"
  proof
    assume "list_all wellFormed cds"
    from validate_wellFormed [OF ne this] e show False by simp
  qed
next
  assume "snd (validate cds) \<noteq> None"
  then show "start cds = Inr (None, snd (validate cds), None)"
    by (cases "validate cds") (auto simp: start_def split: option.splits)
qed

text \<open>
  Witness for C3: a rejected definition followed by the accepted one of the tests.
\<close>

theorem validate_error_result_witness:
  "snd (validate [longShortName, hd testCmds]) \<noteq> None \<and>
   fst (validate [longShortName, hd testCmds]) = Some \<lparr>cmmds = [cdef_zero, entryOf (hd testCmds)]\<rparr> \<and>
   start [longShortName, hd testCmds] = Inr (None, snd (validate [longShortName, hd testCmds]), None)"
proof -
  have wf: "\<not> wellFormed longShortName" "wellFormed (hd testCmds)"
    by (simp_all add: wellFormed_def longShortName_def testCmds_def)
  then have "\<not> (\<forall>k<length [longShortName, hd testCmds]. wellFormed ([longShortName, hd testCmds] ! k))"
    by (auto intro: exI [of _ 0])
  then have e: "snd (validate [longShortName, hd testCmds]) \<noteq> None"
    by (simp add: validate_errs validateLoop_None del: validateLoop.simps)
  from validate_error_result [OF e] obtain tbl where
    t: "fst (validate [longShortName, hd testCmds]) = Some \<lparr>cmmds = tbl\<rparr>"
      "length tbl = 2" "tbl ! 0 = cdef_zero" "tbl ! 1 = entryOf (hd testCmds)"
    and s: "start [longShortName, hd testCmds] = Inr (None, snd (validate [longShortName, hd testCmds]), None)"
    using wf by (auto simp: less_Suc_eq numeral_2_eq_2)
  from t(2-4) have "tbl = [cdef_zero, entryOf (hd testCmds)]"
    by (intro nth_equalityI) (auto simp: less_Suc_eq numeral_2_eq_2)
  with t(1) s e show ?thesis by simp
qed

section \<open>Starting\<close>

text \<open>
  C6: for the empty sequence \<open>Start\<close> returns a \<open>nil\<close> channel, an error whose
  message says that commands are not defined, and launches no task; for a non-empty
  sequence of well-formed definitions it returns a channel and no error, and launches
  the loop on the table of their entries.
\<close>

theorem Start_empty_or_wellFormed:
  "(\<exists>msg. Start ([] :: 'u Cdef list) = Inr (None, Some msg, None) \<and> sublist ''not defined'' msg) \<and>
   (cds \<noteq> [] \<and> list_all wellFormed cds \<longrightarrow>
      Start cds = Inr (Some Chan, None, Some (map entryOf cds)))"
proof (intro conjI impI)
  have "sublist ''not defined'' (''commands '' @ ''not defined'')" by (rule sublist_append_leftI)
  then show "\<exists>msg. Start ([] :: 'u Cdef list) = Inr (None, Some msg, None) \<and> sublist ''not defined'' msg"
    by (simp add: Start_def start_def validate_def)
next
  assume "cds \<noteq> [] \<and> list_all wellFormed cds"
  then have "validate cds = (Some \<lparr>cmmds = map entryOf cds\<rparr>, None)"
    by (simp add: validate_wellFormed)
  then show "Start cds = Inr (Some Chan, None, Some (map entryOf cds))"
    by (simp add: Start_def start_def)
qed

text \<open>Witness for C6: the table of the tests.\<close>

theorem Start_empty_or_wellFormed_witness:
  "testCmds \<noteq> [] \<and> list_all wellFormed testCmds \<and>
   Start testCmds = Inr (Some Chan, None, Some (map entryOf testCmds))"
proof -
  have "testCmds \<noteq> [] \<and> list_all wellFormed testCmds"
    by (simp add: testCmds_def wellFormed_def ParseNone_def)
  with Start_empty_or_wellFormed [of testCmds] show ?thesis by blast
qed

section \<open>Normalisation cuts at the first space\<close>









section \<open>Selection returns the first match\<close>







section \<open>Running a line\<close>

lemma Parser_Parse_effect:
  "Parser_Parse p cmdln w = (res, w1) \<Longrightarrow>
   calls w1 = calls w @ [ParseCall cmdln] \<and> stderr w1 = stderr w \<and> stdout w1 = stdout w \<and>
   shutdownClosed w1 = shutdownClosed w"
  by (cases p) (auto simp: Parser_Parse_def Let_def split: prod.splits)

lemma Runner_Run_effect:
  "\<exists>e w2. Runner_Run r (Some t) args w = Inr (e, w2) \<and>
     calls w2 = calls w @ [RunCall args] \<and> stderr w2 = stderr w \<and>
     shutdownClosed w2 = shutdownClosed w"
  by (cases r) (auto simp: Runner_Run_def helpRunner_Run_def Let_def split: prod.splits)

lemma report_effect:
  "calls (report msg w) = calls w" "stderr (report msg w) = stderr w @ [msg @ [CHR 0x0A]]"
  "stdout (report msg w) = stdout w" "user (report msg w) = user w"
  "shutdownClosed (report msg w) = shutdownClosed w"
  by (simp_all add: report_def)

lemma cmdSelect_member:
  "cmdSelect cmds cmdNm = (c, None) \<Longrightarrow> c \<in> set cmds"
  by (induction cmds) (auto split: if_splits)

lemma cmdParseRun_unknown:
  "cmdNormalize cmdLn = Inr (cmdNm, cmdArg) \<Longrightarrow> cmdSelect cmds cmdNm = (c, Some err) \<Longrightarrow>
   cmdParseRun cmds cmdLn w = Inr (report err w)"
  by (simp add: cmdParseRun_def)

lemma cmdParseRun_parse_error:
  "cmdNormalize cmdLn = Inr (cmdNm, cmdArg) \<Longrightarrow> cmdSelect cmds cmdNm = (c, None) \<Longrightarrow>
   Parse (Cdef c) = Some p \<Longrightarrow> Parser_Parse p (cmdNm @ '' '' @ cmdArg) w = ((args, Some err), w1) \<Longrightarrow>
   cmdParseRun cmds cmdLn w = Inr (report err w1)"
  by (simp add: cmdParseRun_def)

lemma cmdParseRun_run:
  "cmdNormalize cmdLn = Inr (cmdNm, cmdArg) \<Longrightarrow> cmdSelect cmds cmdNm = (c, None) \<Longrightarrow>
   Parse (Cdef c) = Some p \<Longrightarrow> Parser_Parse p (cmdNm @ '' '' @ cmdArg) w = ((args, None), w1) \<Longrightarrow>
   Run (Cdef c) = Some r \<Longrightarrow> Runner_Run r (Some \<lparr>cmmds = cmds\<rparr>) args w1 = Inr (e, w2) \<Longrightarrow>
   cmdParseRun cmds cmdLn w = Inr (case e of Some err \<Rightarrow> report err w2 | None \<Rightarrow> w2)"
  by (simp add: cmdParseRun_def split: option.splits)

lemma cmdParseRun_total:
  assumes "\<forall>c\<in>set cmds. Parse (Cdef c) \<noteq> None \<and> Run (Cdef c) \<noteq> None"
  shows "\<exists>w'. cmdParseRun cmds cmdLn w = Inr w' \<and> shutdownClosed w' = shutdownClosed w"
proof -
  obtain cmdNm cmdArg where n: "cmdNormalize cmdLn = Inr (cmdNm, cmdArg)"
    using cmdNormalize_eq by blast
  obtain c serr where s: "cmdSelect cmds cmdNm = (c, serr)" by (cases "cmdSelect cmds cmdNm")
  show ?thesis
  proof (cases serr)
    case (Some err)
    with n s show ?thesis by (simp add: cmdParseRun_unknown report_effect)
  next
    case None
    with s have "c \<in> set cmds" by (simp add: cmdSelect_member)
    with assms obtain p r where pr: "Parse (Cdef c) = Some p" "Run (Cdef c) = Some r" by auto
    obtain args perr w1 where pp: "Parser_Parse p (cmdNm @ '' '' @ cmdArg) w = ((args, perr), w1)"
      by (metis surj_pair)
    then have w1: "shutdownClosed w1 = shutdownClosed w" by (simp add: Parser_Parse_effect)
    show ?thesis
    proof (cases perr)
      case (Some err)
      with n s None pr pp w1 show ?thesis
        by (simp add: cmdParseRun_parse_error report_effect)
    next
      case pNone: None
      obtain e w2 where rr: "Runner_Run r (Some \<lparr>cmmds = cmds\<rparr>) args w1 = Inr (e, w2)"
        "shutdownClosed w2 = shutdownClosed w1"
        using Runner_Run_effect by blast
      from cmdParseRun_run [OF n s [unfolded None] pr(1) pp [unfolded pNone] pr(2) rr(1)] rr(2) w1
      show ?thesis by (cases e) (simp_all add: report_effect)
    qed
  qed
qed




section \<open>The parser without arguments\<close>

text \<open>
  C9: the parser that \<open>ParseNone\<close> returns gives a \<open>nil\<close> slice and a \<open>nil\<close> error
  on every string. A line that selects a command with this parser writes no parse
  diagnostic: its runner is called, with the \<open>nil\<close> slice, and standard error is as it
  was when the runner returns.
\<close>

theorem ParseNone_succeeds:
  "pn_Parse cmdln = (None, None) \<and>
   Parser_Parse ParseNone cmdln w = ((None, None), w\<lparr>calls := calls w @ [ParseCall cmdln]\<rparr>) \<and>
   (cmdNormalize cmdLn = Inr (cmdNm, cmdArg) \<and> cmdSelect cmds cmdNm = (cmd, None) \<and>
    Parse (Cdef cmd) = Some ParseNone \<and> Run (Cdef cmd) = Some r \<longrightarrow>
      (\<exists>e w2.
         Runner_Run r (Some \<lparr>cmmds = cmds\<rparr>) None
           (w\<lparr>calls := calls w @ [ParseCall (cmdNm @ '' '' @ cmdArg)]\<rparr>) = Inr (e, w2) \<and>
         calls w2 = calls w @ [ParseCall (cmdNm @ '' '' @ cmdArg), RunCall None] \<and>
         stderr w2 = stderr w \<and>
         cmdParseRun cmds cmdLn w = Inr (case e of Some err \<Rightarrow> report err w2 | None \<Rightarrow> w2)))"
proof (intro conjI impI)
  show "pn_Parse cmdln = (None, None)" by (simp add: pn_Parse_def)
  show p: "Parser_Parse ParseNone cmdln w = ((None, None), w\<lparr>calls := calls w @ [ParseCall cmdln]\<rparr>)"
    for cmdln
    by (simp add: Parser_Parse_def ParseNone_def pn_Parse_def)
  assume a: "cmdNormalize cmdLn = Inr (cmdNm, cmdArg) \<and> cmdSelect cmds cmdNm = (cmd, None) \<and>
    Parse (Cdef cmd) = Some ParseNone \<and> Run (Cdef cmd) = Some r"
  let ?w1 = "w\<lparr>calls := calls w @ [ParseCall (cmdNm @ '' '' @ cmdArg)]\<rparr>"
  obtain e w2 where rr: "Runner_Run r (Some \<lparr>cmmds = cmds\<rparr>) None ?w1 = Inr (e, w2)"
    "calls w2 = calls ?w1 @ [RunCall None]" "stderr w2 = stderr ?w1"
    using Runner_Run_effect by blast
  from a have n: "cmdNormalize cmdLn = Inr (cmdNm, cmdArg)"
    and s: "cmdSelect cmds cmdNm = (cmd, None)"
    and pa: "Parse (Cdef cmd) = Some ParseNone" and ru: "Run (Cdef cmd) = Some r"
    by simp_all
  have "cmdParseRun cmds cmdLn w = Inr (case e of Some err \<Rightarrow> report err w2 | None \<Rightarrow> w2)"
    by (rule cmdParseRun_run [OF n s pa p ru rr(1)])
  with rr show "\<exists>e w2.
         Runner_Run r (Some \<lparr>cmmds = cmds\<rparr>) None
           (w\<lparr>calls := calls w @ [ParseCall (cmdNm @ '' '' @ cmdArg)]\<rparr>) = Inr (e, w2) \<and>
         calls w2 = calls w @ [ParseCall (cmdNm @ '' '' @ cmdArg), RunCall None] \<and>
         stderr w2 = stderr w \<and>
         cmdParseRun cmds cmdLn w = Inr (case e of Some err \<Rightarrow> report err w2 | None \<Rightarrow> w2)"
    by simp
qed

text \<open>
  Witness for C9: the command of the tests, which has this parser, on the line
  \<open>Test\<close>.
\<close>

theorem ParseNone_succeeds_witness:
  "cmdNormalize ''Test'' = Inr (''test'', []) \<and>
   cmdSelect (map entryOf testCmds) ''test'' = (entryOf (hd testCmds), None) \<and>
   Parse (Cdef (entryOf (hd testCmds))) = Some ParseNone \<and>
   Run (Cdef (entryOf (hd testCmds))) = Some runNone \<and>
   cmdParseRun (map entryOf testCmds) ''Test'' world0 =
     Inr (world0\<lparr>calls := [ParseCall ''test '', RunCall None]\<rparr>)"
proof -
  have n: "cmdNormalize ''Test'' = Inr (''test'', [])" by code_simp
  have l: "ToLower ''t'' = ''t''" "ToLower ''test'' = ''test''" by code_simp+
  have s: "cmdSelect (map entryOf testCmds) ''test'' = (entryOf (hd testCmds), None)"
    by (simp add: testCmds_def entryOf_def l)
  have pr: "Parse (Cdef (entryOf (hd testCmds))) = Some ParseNone"
    "Run (Cdef (entryOf (hd testCmds))) = Some runNone"
    by (simp_all add: testCmds_def entryOf_def)
  from ParseNone_succeeds [of "[]" world0 "''Test''" "''test''" "[]" "map entryOf testCmds"
      "entryOf (hd testCmds)" runNone] n s pr
  obtain e w2 where r: "Runner_Run runNone (Some \<lparr>cmmds = map entryOf testCmds\<rparr>) None
           (world0\<lparr>calls := calls world0 @ [ParseCall (''test'' @ '' '' @ [])]\<rparr>) = Inr (e, w2)"
    "cmdParseRun (map entryOf testCmds) ''Test'' world0 =
       Inr (case e of Some err \<Rightarrow> report err w2 | None \<Rightarrow> w2)"
    by blast
  from r(1) have "e = None" "w2 = world0\<lparr>calls := [ParseCall ''test '', RunCall None]\<rparr>"
    by (simp_all add: Runner_Run_def runNone_def world0_def)
  with r(2) have "cmdParseRun (map entryOf testCmds) ''Test'' world0 =
     Inr (world0\<lparr>calls := [ParseCall ''test '', RunCall None]\<rparr>)"
    by simp
  with n s pr show ?thesis by blast
qed

section \<open>Blank lines\<close>


lemma ToLower_Nil: "ToLower s = [] \<longleftrightarrow> s = []"
  by (simp add: ToLower_def)



section \<open>The loop and its shutdown channel\<close>

lemma cmdParseRun_shutdownClosed:
  assumes "cmdParseRun cmds cmdLn w = Inr w'"
  shows "shutdownClosed w' = shutdownClosed w"
proof -
  obtain cmdNm cmdArg where n: "cmdNormalize cmdLn = Inr (cmdNm, cmdArg)"
    using cmdNormalize_eq by blast
  obtain c serr where s: "cmdSelect cmds cmdNm = (c, serr)" by (cases "cmdSelect cmds cmdNm")
  show ?thesis
  proof (cases serr)
    case (Some err)
    with n s assms show ?thesis by (auto simp: cmdParseRun_unknown report_effect)
  next
    case sNone: None
    show ?thesis
    proof (cases "Parse (Cdef c)")
      case None
      with n s sNone assms show ?thesis by (simp add: cmdParseRun_def)
    next
      case (Some p)
      obtain args perr w1 where pp: "Parser_Parse p (cmdNm @ '' '' @ cmdArg) w = ((args, perr), w1)"
        by (metis surj_pair)
      then have w1: "shutdownClosed w1 = shutdownClosed w" by (simp add: Parser_Parse_effect)
      show ?thesis
      proof (cases perr)
        case pSome: (Some err)
        from cmdParseRun_parse_error [OF n s [unfolded sNone] Some pp [unfolded pSome]] assms w1
        show ?thesis by (auto simp: report_effect)
      next
        case pNone: None
        show ?thesis
        proof (cases "Run (Cdef c)")
          case None
          with n s sNone Some pp pNone assms show ?thesis by (simp add: cmdParseRun_def)
        next
          case rSome: (Some r)
          obtain e w2 where rr: "Runner_Run r (Some \<lparr>cmmds = cmds\<rparr>) args w1 = Inr (e, w2)"
            "shutdownClosed w2 = shutdownClosed w1"
            using Runner_Run_effect by blast
          from cmdParseRun_run [OF n s [unfolded sNone] Some pp [unfolded pNone] rSome rr(1)]
            assms rr(2) w1
          show ?thesis by (cases e) (auto simp: report_effect)
        qed
      qed
    qed
  qed
qed

lemma processLoop_result:
  "processLoop cmds evs w = Inr (st, rest, w') \<Longrightarrow>
   shutdownClosed w' = shutdownClosed w \<and>
   (st = Running \<longrightarrow> rest = [] \<and> (\<forall>e\<in>set evs. e \<noteq> RespClosed \<and> e \<noteq> ShutdownRecv True)) \<and>
   (st = Terminated \<longrightarrow> (\<exists>e\<in>set evs. e = RespClosed \<or> e = ShutdownRecv True))"
proof (induction cmds evs w rule: processLoop.induct)
  case (1 cmds w)
  then show ?case by auto
next
  case (2 cmds cmdLn evs w)
  from "2.prems" obtain w1 where w1: "cmdParseRun cmds cmdLn w = Inr w1"
    "processLoop cmds evs w1 = Inr (st, rest, w')"
    by (auto split: sum.splits)
  from "2.IH" [OF this] cmdParseRun_shutdownClosed [OF w1(1)] show ?case by auto
next
  case (3 cmds evs w)
  then show ?case by auto
next
  case (4 cmds sd evs w)
  then show ?case by (cases sd) auto
qed

lemma processLoop_total:
  assumes "\<forall>c\<in>set cmds. Parse (Cdef c) \<noteq> None \<and> Run (Cdef c) \<noteq> None"
  shows "\<exists>st rest w'. processLoop cmds evs w = Inr (st, rest, w')"
proof (induction evs arbitrary: w)
  case Nil
  show ?case by simp
next
  case (Cons ev evs)
  show ?case
  proof (cases ev)
    case (RespLine cmdLn)
    obtain w1 where "cmdParseRun cmds cmdLn w = Inr w1"
      using cmdParseRun_total [OF assms] by blast
    with RespLine Cons [of w1] show ?thesis by simp
  next
    case RespClosed
    then show ?thesis by simp
  next
    case (ShutdownRecv sd)
    with Cons [of w] show ?thesis by (cases sd) simp_all
  qed
qed

text \<open>
  C7: the loop has two states. Running, it terminates when it receives \<open>true\<close> from
  the shutdown channel or finds the response channel closed, and then closes the
  shutdown channel; when it receives \<open>false\<close> it goes on as if nothing had been
  received. Whatever it receives, it has closed the shutdown channel once more when it
  has terminated and not at all while it runs; it terminates exactly when one of the
  two terminating events is among those it receives, and on a table whose parsers and
  runners are there it always reaches one of the two states.
\<close>

theorem processCmdLn_two_states:
  "processCmdLn cmds (ShutdownRecv True # evs) w =
     Inr (Terminated, evs, w\<lparr>shutdownClosed := shutdownClosed w + 1\<rparr>) \<and>
   processCmdLn cmds (RespClosed # evs) w =
     Inr (Terminated, evs, w\<lparr>shutdownClosed := shutdownClosed w + 1\<rparr>) \<and>
   processCmdLn cmds (ShutdownRecv False # evs) w = processCmdLn cmds evs w \<and>
   processCmdLn cmds [] w = Inr (Running, [], w) \<and>
   (processCmdLn cmds evs w = Inr (st, rest, w') \<longrightarrow>
      (st = Terminated \<longrightarrow>
         shutdownClosed w' = shutdownClosed w + 1 \<and>
         (\<exists>e\<in>set evs. e = RespClosed \<or> e = ShutdownRecv True)) \<and>
      (st = Running \<longrightarrow>
         shutdownClosed w' = shutdownClosed w \<and> rest = [] \<and>
         (\<forall>e\<in>set evs. e \<noteq> RespClosed \<and> e \<noteq> ShutdownRecv True))) \<and>
   ((\<forall>c\<in>set cmds. Parse (Cdef c) \<noteq> None \<and> Run (Cdef c) \<noteq> None) \<longrightarrow>
      (\<exists>st rest w'. processCmdLn cmds evs w = Inr (st, rest, w')))"
proof (intro conjI impI)
  show "processCmdLn cmds (ShutdownRecv True # evs) w =
     Inr (Terminated, evs, w\<lparr>shutdownClosed := shutdownClosed w + 1\<rparr>)"
    by (simp add: processCmdLn_def)
  show "processCmdLn cmds (RespClosed # evs) w =
     Inr (Terminated, evs, w\<lparr>shutdownClosed := shutdownClosed w + 1\<rparr>)"
    by (simp add: processCmdLn_def)
  show "processCmdLn cmds (ShutdownRecv False # evs) w = processCmdLn cmds evs w"
    by (simp add: processCmdLn_def)
  show "processCmdLn cmds [] w = Inr (Running, [], w)"
    by (simp add: processCmdLn_def)
next
  assume a: "processCmdLn cmds evs w = Inr (st, rest, w')" and t: "st = Terminated"
  then obtain w1 where l: "processLoop cmds evs w = Inr (Terminated, rest, w1)"
    and w': "w' = w1\<lparr>shutdownClosed := shutdownClosed w1 + 1\<rparr>"
    by (auto simp: processCmdLn_def split: sum.splits loopState.splits)
  from processLoop_result [OF l] w'
  show "shutdownClosed w' = shutdownClosed w + 1"
    and "\<exists>e\<in>set evs. e = RespClosed \<or> e = ShutdownRecv True"
    by simp_all
next
  assume a: "processCmdLn cmds evs w = Inr (st, rest, w')" and t: "st = Running"
  then have l: "processLoop cmds evs w = Inr (Running, rest, w')"
    by (auto simp: processCmdLn_def split: sum.splits loopState.splits)
  from processLoop_result [OF l]
  show "shutdownClosed w' = shutdownClosed w" and "rest = []"
    and "\<forall>e\<in>set evs. e \<noteq> RespClosed \<and> e \<noteq> ShutdownRecv True"
    by simp_all
next
  assume "\<forall>c\<in>set cmds. Parse (Cdef c) \<noteq> None \<and> Run (Cdef c) \<noteq> None"
  from processLoop_total [OF this, of evs w]
  obtain st rest w' where "processLoop cmds evs w = Inr (st, rest, w')" by blast
  then show "\<exists>st rest w'. processCmdLn cmds evs w = Inr (st, rest, w')"
    by (cases st) (simp_all add: processCmdLn_def)
qed

text \<open>
  Witness for C7: the loop of the tests receives \<open>false\<close>, a line, \<open>true\<close> and a
  second line; it terminates at \<open>true\<close>, having run the first line and closed the
  channel once, and the second line is left.
\<close>

theorem processCmdLn_two_states_witness:
  "list_all (\<lambda>c. Parse (Cdef c) \<noteq> None \<and> Run (Cdef c) \<noteq> None) (map entryOf testCmds) \<and>
   processCmdLn (map entryOf testCmds)
     [ShutdownRecv False, RespLine ''test'', ShutdownRecv True, RespLine ''t''] world0 =
     Inr (Terminated, [RespLine ''t''],
          world0\<lparr>calls := [ParseCall ''test '', RunCall None], shutdownClosed := 1\<rparr>) \<and>
   shutdownClosed (world0\<lparr>calls := [ParseCall ''test '', RunCall None], shutdownClosed := 1\<rparr>) =
     shutdownClosed world0 + 1 \<and>
   processCmdLn (map entryOf testCmds) [ShutdownRecv False, RespLine ''bogus''] world0 =
     Inr (Running, [], world0\<lparr>stderr := [msgUnknown ''bogus'' @ [CHR 0x0A]]\<rparr>)"
proof -
  have p: "\<forall>c\<in>set (map entryOf testCmds). Parse (Cdef c) \<noteq> None \<and> Run (Cdef c) \<noteq> None"
    by (simp add: testCmds_def entryOf_def)
  have a: "processCmdLn (map entryOf testCmds)
     [ShutdownRecv False, RespLine ''test'', ShutdownRecv True, RespLine ''t''] world0 =
     Inr (Terminated, [RespLine ''t''],
          world0\<lparr>calls := [ParseCall ''test '', RunCall None], shutdownClosed := 1\<rparr>)"
    by code_simp
  have b: "processCmdLn (map entryOf testCmds) [ShutdownRecv False, RespLine ''bogus''] world0 =
     Inr (Running, [], world0\<lparr>stderr := [msgUnknown ''bogus'' @ [CHR 0x0A]]\<rparr>)"
    by code_simp
  from processCmdLn_two_states [of "map entryOf testCmds" _ world0 Terminated "[RespLine ''t'']"
      "world0\<lparr>calls := [ParseCall ''test '', RunCall None], shutdownClosed := 1\<rparr>"] a
  have c: "shutdownClosed (world0\<lparr>calls := [ParseCall ''test '', RunCall None], shutdownClosed := 1\<rparr>) =
     shutdownClosed world0 + 1"
    by blast
  from p have p': "list_all (\<lambda>c. Parse (Cdef c) \<noteq> None \<and> Run (Cdef c) \<noteq> None) (map entryOf testCmds)"
    by (simp only: list_all_iff)
  from p' a b c show ?thesis by blast
qed

end
